theory Spec2Isabelle
  imports Complex_Main "HOL-Library.Signed_Division"
begin

section \<open>Data model (main.go)\<close>

text \<open>
  The Go program keeps its todos in two package-level variables, \<^verbatim>\<open>todos []Todo\<close> and
  \<^verbatim>\<open>nextID int = 1\<close>, guarded by one \<^verbatim>\<open>sync.RWMutex\<close>. Every handler holds the
  lock for its whole body, so a handler is an atomic step on the pair of variables and
  is modelled as a function from the old store to a response and the new store.

  Go's \<^verbatim>\<open>int\<close> is taken as the 64-bit type of the amd64 and arm64 targets: values
  are integers kept in the range \<open>-2^63 .. 2^63 - 1\<close>, and every arithmetic operation
  of the source is followed by the two's complement wrap-around \<open>int64\<close>.

  A \<^verbatim>\<open>time.Time\<close> is modelled by its instant in nanoseconds. The readings of
  \<^verbatim>\<open>time.Now()\<close> are inputs of a handler, one parameter per call in the source.
\<close>

type_synonym Time = int

record Todo =
  ID :: int
  Title :: string
  Description :: string
  Completed :: bool
  CreatedAt :: Time
  UpdatedAt :: Time

record store =
  todos :: "Todo list"
  nextID :: int

definition init_store :: store where
  "init_store = \<lparr>todos = [], nextID = 1\<rparr>"

definition int64 :: "int \<Rightarrow> int" where
  "int64 x = (x + 2 ^ 63) mod 2 ^ 64 - 2 ^ 63"

definition in_int64 :: "int \<Rightarrow> bool" where
  "in_int64 x \<longleftrightarrow> - (2 ^ 63) \<le> x \<and> x < 2 ^ 63"

section \<open>strconv.Atoi\<close>

text \<open>
  \<^verbatim>\<open>strconv.Atoi\<close> belongs to the Go standard library, not to the repository. It is
  modelled after its documented behaviour for a 64-bit \<^verbatim>\<open>int\<close>: an optional sign
  \<^verbatim>\<open>+\<close> or \<^verbatim>\<open>-\<close>, then one or more decimal digits; a syntax error for anything
  else and a range error for a value outside \<open>-2^63 .. 2^63 - 1\<close>. Both errors are
  \<open>None\<close>, since the handlers only test \<^verbatim>\<open>err != nil\<close>.

  The digit test is the library's own: \<^verbatim>\<open>ch -= '0'; if ch > 9\<close> on a byte.
\<close>

fun digits_val :: "string \<Rightarrow> int \<Rightarrow> int option" where
  "digits_val [] n = Some n"
| "digits_val (ch # cs) n =
     (let d = (of_char ch - 48) mod 256 :: int
      in if d > 9 then None else digits_val cs (n * 10 + d))"

definition Atoi :: "string \<Rightarrow> int option" where
  "Atoi s =
     (if s = [] then None
      else
        let neg = (hd s = CHR ''-'');
            ds = (if hd s = CHR ''-'' \<or> hd s = CHR ''+'' then tl s else s)
        in if ds = [] then None
           else (case digits_val ds 0 of
                   None \<Rightarrow> None
                 | Some n \<Rightarrow>
                     if neg then (if 2 ^ 63 < n then None else Some (- n))
                     else (if 2 ^ 63 \<le> n then None else Some n)))"

section \<open>Responses\<close>

text \<open>
  A handler answers with \<^verbatim>\<open>c.JSON(status, body)\<close>. The body is an error object
  \<^verbatim>\<open>{"error": msg}\<close>, a todo, a message object \<^verbatim>\<open>{"message": msg}\<close> or the page
  object of the list handler.
\<close>

record page_body =
  page_todos :: "Todo list"
  total_count :: int
  current_page :: int
  total_pages :: int
  per_page :: int
  has_next :: bool
  has_prev :: bool

datatype payload =
  ErrorBody string
| TodoBody Todo
| MessageBody string
| PageBody page_body
| NoBody

type_synonym response = "nat \<times> payload"

section \<open>The handlers of main.go\<close>

text \<open>
  \<^verbatim>\<open>c.ShouldBindJSON(&t)\<close> is the framework's decoder. Its outcome is an input of the
  model: \<open>Inl msg\<close> when decoding fails, \<open>Inr t\<close> with the decoded struct otherwise.
  The struct has a JSON tag on each of its six fields, so a decoded \<open>t\<close> carries whatever
  the caller sent for \<^verbatim>\<open>id\<close>, \<^verbatim>\<open>created_at\<close> and \<^verbatim>\<open>updated_at\<close> too.
\<close>

type_synonym body = "string + Todo"

definition CreateTodo :: "store \<Rightarrow> body \<Rightarrow> Time \<Rightarrow> Time \<Rightarrow> response \<times> store" where
  "CreateTodo s b now1 now2 =
     (case b of
        Inl err \<Rightarrow> ((400, ErrorBody err), s)
      | Inr newTodo \<Rightarrow>
          let newTodo = newTodo\<lparr>ID := nextID s\<rparr>;
              nextID' = int64 (nextID s + 1);
              newTodo = newTodo\<lparr>CreatedAt := now1\<rparr>;
              newTodo = newTodo\<lparr>UpdatedAt := now2\<rparr>
          in ((201, TodoBody newTodo), \<lparr>todos = todos s @ [newTodo], nextID = nextID'\<rparr>))"

text \<open>
  The three handlers that take an id scan the slice from the front and stop at the
  first element whose \<^verbatim>\<open>ID\<close> equals the id: \<^verbatim>\<open>for i, todo := range todos\<close>.
\<close>

fun find_index :: "Todo list \<Rightarrow> int \<Rightarrow> nat option" where
  "find_index [] i = None"
| "find_index (todo # rest) i =
     (if ID todo = i then Some 0 else map_option Suc (find_index rest i))"

definition GetTodo :: "store \<Rightarrow> string \<Rightarrow> response" where
  "GetTodo s idParam =
     (case Atoi idParam of
        None \<Rightarrow> (400, ErrorBody ''Invalid todo ID'')
      | Some i \<Rightarrow>
          (case find_index (todos s) i of
             Some k \<Rightarrow> (200, TodoBody (todos s ! k))
           | None \<Rightarrow> (404, ErrorBody ''Todo not found'')))"

definition UpdateTodo :: "store \<Rightarrow> string \<Rightarrow> body \<Rightarrow> Time \<Rightarrow> response \<times> store" where
  "UpdateTodo s idParam b now =
     (case Atoi idParam of
        None \<Rightarrow> ((400, ErrorBody ''Invalid todo ID''), s)
      | Some i \<Rightarrow>
          (case b of
             Inl err \<Rightarrow> ((400, ErrorBody err), s)
           | Inr updatedTodo \<Rightarrow>
               (case find_index (todos s) i of
                  Some k \<Rightarrow>
                    let todo = todos s ! k;
                        updatedTodo = updatedTodo\<lparr>ID := i\<rparr>;
                        updatedTodo = updatedTodo\<lparr>CreatedAt := CreatedAt todo\<rparr>;
                        updatedTodo = updatedTodo\<lparr>UpdatedAt := now\<rparr>
                    in ((200, TodoBody updatedTodo), s\<lparr>todos := (todos s)[k := updatedTodo]\<rparr>)
                | None \<Rightarrow> ((404, ErrorBody ''Todo not found''), s))))"

definition DeleteTodo :: "store \<Rightarrow> string \<Rightarrow> response \<times> store" where
  "DeleteTodo s idParam =
     (case Atoi idParam of
        None \<Rightarrow> ((400, ErrorBody ''Invalid todo ID''), s)
      | Some i \<Rightarrow>
          (case find_index (todos s) i of
             Some k \<Rightarrow>
               ((200, MessageBody ''Todo deleted successfully''),
                s\<lparr>todos := take k (todos s) @ drop (k + 1) (todos s)\<rparr>)
           | None \<Rightarrow> ((404, ErrorBody ''Todo not found''), s)))"

section \<open>The list handler with pagination\<close>

text \<open>
  \<^verbatim>\<open>GetTodos\<close> in its paginated version (the other version in the sources returns
  the whole slice and has no parameters). \<^verbatim>\<open>c.Query(key)\<close> returns the empty string
  for an absent parameter, so the two query parameters are plain strings.

  The handler can panic: an integer division by zero and a slice expression
  \<^verbatim>\<open>todos[offset:end]\<close> whose bounds violate \<open>0 \<le> offset \<le> end \<le> cap(todos)\<close> are
  run-time panics in Go. After the clamp \<^verbatim>\<open>if end > totalCount\<close>, \<open>end\<close> is at most
  \<open>len(todos)\<close>, hence at most the capacity, so the model tests the other two bounds.
\<close>

datatype go_panic = DivideByZero | SliceBoundsOutOfRange

definition query_page :: "string \<Rightarrow> int" where
  "query_page pageParam =
     (let page = 1
      in if pageParam \<noteq> [] then
           (case Atoi pageParam of
              Some p \<Rightarrow> if p > 0 then p else page
            | None \<Rightarrow> page)
         else page)"

definition query_limit :: "string \<Rightarrow> int" where
  "query_limit limitParam =
     (let limit = 10
      in if limitParam \<noteq> [] then
           (case Atoi limitParam of
              Some l \<Rightarrow> if l > 0 then (if l \<le> 100 then l else 100) else limit
            | None \<Rightarrow> limit)
         else limit)"

definition paginate :: "Todo list \<Rightarrow> int \<Rightarrow> int \<Rightarrow> go_panic + response" where
  "paginate ts page limit =
     (let totalCount = int (length ts)
      in if limit = 0 then Inl DivideByZero
         else
           let totalPages = int64 (int64 (int64 (totalCount + limit) - 1) sdiv limit);
               totalPages = (if totalPages = 0 then 1 else totalPages);
               offset = int64 (int64 (page - 1) * limit)
           in if offset \<ge> totalCount then
                Inr (200, PageBody \<lparr>page_todos = [], total_count = totalCount,
                       current_page = page, total_pages = totalPages, per_page = limit,
                       has_next = False, has_prev = (page > 1)\<rparr>)
              else
                let endIdx = int64 (offset + limit);
                    endIdx = (if endIdx > totalCount then totalCount else endIdx)
                in if offset < 0 \<or> endIdx < offset then Inl SliceBoundsOutOfRange
                   else
                     let paginatedTodos = take (nat (endIdx - offset)) (drop (nat offset) ts)
                     in Inr (200, PageBody \<lparr>page_todos = paginatedTodos,
                              total_count = totalCount, current_page = page,
                              total_pages = totalPages, per_page = limit,
                              has_next = (page < totalPages), has_prev = (page > 1)\<rparr>))"

definition GetTodos :: "store \<Rightarrow> string \<Rightarrow> string \<Rightarrow> go_panic + response" where
  "GetTodos s pageParam limitParam =
     paginate (todos s) (query_page pageParam) (query_limit limitParam)"

section \<open>The request body and its decoder\<close>

text \<open>
  \<^verbatim>\<open>c.ShouldBindJSON\<close> is gin's binding over \<^verbatim>\<open>encoding/json\<close>; neither belongs to the
  repository. The decoder is modelled after its documented behaviour on the struct
  \<^verbatim>\<open>Todo\<close>, at the level of the struct's six keys. In a body that is a JSON object each
  key is
  \<^item> \<open>Absent\<close>: the object does not have the key, and the field keeps the zero value of
    its Go type;
  \<^item> \<open>Present v\<close>: the object has the key with a value that converts to the field's type
    (a JSON integer in the range of \<^verbatim>\<open>int\<close> for \<^verbatim>\<open>id\<close>, a string for \<^verbatim>\<open>title\<close>
    and \<^verbatim>\<open>description\<close>, a boolean for \<^verbatim>\<open>completed\<close>, an RFC 3339 string for the two
    timestamps), and the field takes \<open>v\<close>;
  \<^item> \<open>Mistyped\<close>: the object has the key with a value that does not convert
    (\<^verbatim>\<open>"id": "7"\<close>, \<^verbatim>\<open>"id": 1.5\<close>, \<^verbatim>\<open>"created_at": "yesterday"\<close>), and decoding
    returns an error.
  The struct has no \<^verbatim>\<open>binding\<close> tags, so gin's validation adds no further error. A body
  that the decoder refuses before it reaches any key (an empty body, text that is not
  JSON, a JSON array) is \<open>Refused\<close>. The text of the decoder's error is an input.
\<close>

datatype 'a member = Absent | Present 'a | Mistyped

record json_object =
  json_id :: "int member"
  json_title :: "string member"
  json_description :: "string member"
  json_completed :: "bool member"
  json_created_at :: "Time member"
  json_updated_at :: "Time member"

datatype raw_body = Refused | Object json_object

text \<open>The zero \<^verbatim>\<open>time.Time\<close> is midnight UTC of January 1 of the year 1.\<close>

definition zeroTime :: Time where
  "zeroTime = - 62135596800000000000"

fun field_value :: "'a \<Rightarrow> 'a member \<Rightarrow> 'a" where
  "field_value zero Absent = zero"
| "field_value zero (Present v) = v"
| "field_value zero Mistyped = zero"

definition well_typed :: "json_object \<Rightarrow> bool" where
  "well_typed obj \<longleftrightarrow>
     json_id obj \<noteq> Mistyped \<and> json_title obj \<noteq> Mistyped \<and>
     json_description obj \<noteq> Mistyped \<and> json_completed obj \<noteq> Mistyped \<and>
     json_created_at obj \<noteq> Mistyped \<and> json_updated_at obj \<noteq> Mistyped"

definition ShouldBindJSON :: "raw_body \<Rightarrow> string \<Rightarrow> body" where
  "ShouldBindJSON raw err =
     (case raw of
        Refused \<Rightarrow> Inl err
      | Object obj \<Rightarrow>
          if well_typed obj then
            Inr \<lparr>ID = field_value 0 (json_id obj),
                 Title = field_value [] (json_title obj),
                 Description = field_value [] (json_description obj),
                 Completed = field_value False (json_completed obj),
                 CreatedAt = field_value zeroTime (json_created_at obj),
                 UpdatedAt = field_value zeroTime (json_updated_at obj)\<rparr>
          else Inl err)"

section \<open>Requests\<close>

text \<open>
  The routes of \<^verbatim>\<open>main\<close>. The router is \<^verbatim>\<open>gin.Default()\<close>, whose recovery
  middleware answers a panicking handler with status 500 and no body; the deferred
  unlock has run by then and the store is as the handler left it.
\<close>

datatype request =
  POST_todos body Time Time
| GET_todos string string
| GET_todo string
| PUT_todo string body Time
| DELETE_todo string

fun handle :: "store \<Rightarrow> request \<Rightarrow> response \<times> store" where
  "handle s (POST_todos b now1 now2) = CreateTodo s b now1 now2"
| "handle s (GET_todos pageParam limitParam) =
     (case GetTodos s pageParam limitParam of
        Inl p \<Rightarrow> ((500, NoBody), s)
      | Inr r \<Rightarrow> (r, s))"
| "handle s (GET_todo idParam) = (GetTodo s idParam, s)"
| "handle s (PUT_todo idParam b now) = UpdateTodo s idParam b now"
| "handle s (DELETE_todo idParam) = DeleteTodo s idParam"

fun run :: "store \<Rightarrow> request list \<Rightarrow> response list \<times> store" where
  "run s [] = ([], s)"
| "run s (r # rs) =
     (case handle s r of
        (resp, s') \<Rightarrow> (case run s' rs of (resps, s'') \<Rightarrow> (resp # resps, s'')))"

text \<open>The ids handed out by the successful creations of a run, in order.\<close>

fun created_id :: "response \<Rightarrow> int option" where
  "created_id (code, TodoBody t) = (if code = 201 then Some (ID t) else None)"
| "created_id (code, other) = None"

definition created_ids :: "response list \<Rightarrow> int list" where
  "created_ids resps = List.map_filter created_id resps"

section \<open>The specification's rule for the query parameters\<close>

text \<open>
  The two functions below follow the words of the specification, not the code: the page
  is the parsed value when there is one and it is positive, otherwise 1; the limit is the
  parsed value when it lies in \<open>(0, 100]\<close>, 100 when it exceeds 100, otherwise 10. They
  are compared with \<open>query_page\<close> and \<open>query_limit\<close>, which follow the code.
\<close>

definition spec_page :: "int option \<Rightarrow> int" where
  "spec_page parsed = (case parsed of Some p \<Rightarrow> if p > 0 then p else 1 | None \<Rightarrow> 1)"

definition spec_limit :: "int option \<Rightarrow> int" where
  "spec_limit parsed =
     (case parsed of
        Some l \<Rightarrow> if 0 < l \<and> l \<le> 100 then l else if 100 < l then 100 else 10
      | None \<Rightarrow> 10)"

section \<open>Sample values\<close>

definition sample :: Todo where
  "sample = \<lparr>ID = 42, Title = ''Learn Go'', Description = ''Complete Go tutorial'',
      Completed = False, CreatedAt = 7, UpdatedAt = 8\<rparr>"

definition two_todos :: store where
  "two_todos =
     \<lparr>todos = [\<lparr>ID = 1, Title = ''a'', Description = ''x'', Completed = False,
                  CreatedAt = 10, UpdatedAt = 11\<rparr>,
                \<lparr>ID = 3, Title = ''b'', Description = ''y'', Completed = True,
                  CreatedAt = 30, UpdatedAt = 31\<rparr>],
       nextID = 4\<rparr>"

section \<open>Arithmetic of the 64-bit int\<close>

lemma int64_id: "in_int64 x \<Longrightarrow> int64 x = x"
  by (simp add: int64_def in_int64_def)

lemma in_int64_int64: "in_int64 (int64 x)"
  by (simp add: int64_def in_int64_def)

lemma int64_add_left: "int64 (int64 x + y) = int64 (x + y)"
proof -
  have "(int64 x + y + 2 ^ 63) mod 2 ^ 64 = ((x + 2 ^ 63) mod 2 ^ 64 + y) mod 2 ^ 64"
    by (simp add: int64_def)
  also have "\<dots> = ((x + 2 ^ 63) + y) mod 2 ^ 64"
    by (rule mod_add_left_eq)
  also have "(x + 2 ^ 63) + y = x + y + 2 ^ 63"
    by simp
  finally show ?thesis by (simp add: int64_def)
qed

lemma div_round_up:
  fixes n l :: int
  assumes "0 < l"
  shows "(n + l - 1) div l = (if n mod l = 0 then n div l else n div l + 1)"
proof -
  define q where "q = n div l"
  define r where "r = n mod l"
  have n: "n = q * l + r" by (simp add: q_def r_def)
  have r0: "0 \<le> r" unfolding r_def using assms by (rule pos_mod_sign)
  have rl: "r < l" unfolding r_def using assms by (rule pos_mod_bound)
  have e: "n + l - 1 = q * l + (r + l - 1)" unfolding n by simp
  have "(n + l - 1) div l = (q * l + (r + l - 1)) div l" by (simp only: e)
  also have "\<dots> = q + (r + l - 1) div l"
    using assms by (simp only: div_mult_self3) 
  finally have step: "(n + l - 1) div l = q + (r + l - 1) div l" .
  show ?thesis
  proof (cases "r = 0")
    case True
    then have "(r + l - 1) div l = 0" using assms by (simp add: div_pos_pos_trivial)
    with step True show ?thesis by (simp add: q_def r_def)
  next
    case False
    with r0 have "1 \<le> r" by linarith
    then have "(r - 1) div l = 0" using rl by (simp add: div_pos_pos_trivial)
    moreover have e2: "r + l - 1 = (r - 1) + l" by simp
    have "(r + l - 1) div l = (r - 1) div l + 1"
      unfolding e2 using assms by (intro div_add_self2) simp
    ultimately have "(r + l - 1) div l = 1" by simp
    with step False show ?thesis by (simp add: q_def r_def)
  qed
qed

lemma ceiling_div_int:
  fixes n l :: int
  assumes "0 < l"
  shows "\<lceil>real_of_int n / real_of_int l\<rceil> = (n + l - 1) div l"
proof -
  have "\<lceil>real_of_int n / real_of_int l\<rceil> = - (- n div l)"
    by (rule ceiling_divide_eq_div)
  also have "\<dots> = (if n mod l = 0 then n div l else n div l + 1)"
    using assms by (simp add: zdiv_zminus1_eq_if)
  also have "\<dots> = (n + l - 1) div l"
    using assms by (simp only: div_round_up)
  finally show ?thesis .
qed

lemma sdiv_nonneg: "0 \<le> a \<Longrightarrow> 0 < b \<Longrightarrow> (a::int) sdiv b = a div b"
  by (cases "a = 0") (simp_all add: signed_divide_int_def)

lemma total_pages_value:
  fixes n l :: int
  assumes "0 \<le> n" "1 \<le> l" "l \<le> 100" "n + 100 < 2 ^ 63"
  shows "int64 (int64 (int64 (n + l) - 1) sdiv l) = (n + l - 1) div l"
proof -
  have "in_int64 (n + l)" using assms by (simp add: in_int64_def)
  then have a: "int64 (n + l) = n + l" by (rule int64_id)
  have "in_int64 (n + l - 1)" using assms by (simp add: in_int64_def)
  then have b: "int64 (n + l - 1) = n + l - 1" by (rule int64_id)
  have c: "(n + l - 1) sdiv l = (n + l - 1) div l" using assms by (simp add: sdiv_nonneg)
  have "0 \<le> (n + l - 1) div l" using assms by (simp add: pos_imp_zdiv_nonneg_iff)
  moreover have "(n + l - 1) div l \<le> (n + l - 1) div 1"
    using assms by (intro zdiv_mono2) simp_all
  ultimately have "in_int64 ((n + l - 1) div l)" using assms by (simp add: in_int64_def)
  with a b c show ?thesis by (simp add: int64_id)
qed

lemma total_pages_zero_iff:
  fixes n l :: int
  assumes "0 \<le> n" "1 \<le> l"
  shows "(n + l - 1) div l = 0 \<longleftrightarrow> n = 0"
proof
  assume z: "(n + l - 1) div l = 0"
  show "n = 0"
  proof (rule ccontr)
    assume "n \<noteq> 0"
    with assms have "l \<le> n + l - 1" by linarith
    with assms have "0 < (n + l - 1) div l" by (simp add: pos_imp_zdiv_pos_iff)
    with z show False by simp
  qed
next
  assume "n = 0"
  with assms show "(n + l - 1) div l = 0" by (simp add: div_pos_pos_trivial)
qed

section \<open>Facts about strconv.Atoi\<close>

lemma Atoi_empty: "Atoi [] = None"
  by (simp add: Atoi_def)

lemma digits_val_nonneg: "digits_val cs n = Some m \<Longrightarrow> 0 \<le> n \<Longrightarrow> 0 \<le> m"
proof (induction cs arbitrary: n)
  case Nil
  then show ?case by simp
next
  case (Cons ch cs)
  let ?d = "(of_char ch - 48) mod 256 :: int"
  have d: "0 \<le> ?d" by simp
  from Cons.prems(1) have r: "digits_val cs (n * 10 + ?d) = Some m"
    by (simp add: Let_def split: if_splits)
  from Cons.prems(2) d have "0 \<le> n * 10 + ?d" by simp
  with Cons.IH [OF r] show ?case .
qed

lemma Atoi_range: "Atoi s = Some n \<Longrightarrow> in_int64 n"
proof -
  assume a: "Atoi s = Some n"
  then have ne: "s \<noteq> []" by (auto simp: Atoi_def)
  let ?ds = "if hd s = CHR ''-'' \<or> hd s = CHR ''+'' then tl s else s"
  from a ne obtain m where m: "digits_val ?ds 0 = Some m"
    by (auto simp: Atoi_def Let_def split: if_splits option.splits)
  from digits_val_nonneg [OF m] have m0: "0 \<le> m" by simp
  from a ne m have "(n = - m \<and> m \<le> 2 ^ 63) \<or> (n = m \<and> m < 2 ^ 63)"
    by (auto simp: Atoi_def Let_def split: if_splits)
  with m0 show ?thesis by (auto simp: in_int64_def)
qed

section \<open>The scan for an id\<close>

lemma find_index_None_iff: "find_index ts i = None \<longleftrightarrow> i \<notin> ID ` set ts"
  by (induction ts) auto

lemma find_index_Some:
  "find_index ts i = Some k \<Longrightarrow> k < length ts \<and> ID (ts ! k) = i \<and> (\<forall>j<k. ID (ts ! j) \<noteq> i)"
proof (induction ts arbitrary: k)
  case Nil
  then show ?case by simp
next
  case (Cons t ts)
  show ?case
  proof (cases "ID t = i")
    case True
    with Cons.prems show ?thesis by simp
  next
    case False
    with Cons.prems obtain k' where k': "find_index ts i = Some k'" "k = Suc k'"
      by auto
    from Cons.IH [OF k'(1)] False k'(2) show ?thesis
      by (auto simp: less_Suc_eq_0_disj)
  qed
qed

lemma find_index_present:
  "i \<in> ID ` set ts \<Longrightarrow> \<exists>k. find_index ts i = Some k"
  using find_index_None_iff [of ts i] by (cases "find_index ts i") auto

lemma find_index_append_new:
  "i \<notin> ID ` set ts \<Longrightarrow> ID t = i \<Longrightarrow> find_index (ts @ [t]) i = Some (length ts)"
  by (induction ts) auto

section \<open>Removing and slicing\<close>

lemma filter_out_middle:
  "distinct (map f (A @ x # B)) \<Longrightarrow> filter (\<lambda>t. f t \<noteq> f x) (A @ x # B) = A @ B"
proof -
  assume d: "distinct (map f (A @ x # B))"
  have "f a \<noteq> f x" if "a \<in> set A" for a
    using d that by (auto simp: image_iff)
  moreover have "f b \<noteq> f x" if "b \<in> set B" for b
    using d that by (auto simp: image_iff)
  ultimately show ?thesis
    by (simp add: filter_id_conv)
qed

lemma remove_nth_filter:
  assumes "distinct (map f xs)" and "k < length xs"
  shows "take k xs @ drop (Suc k) xs = filter (\<lambda>t. f t \<noteq> f (xs ! k)) xs"
proof -
  from assms(2) have split: "xs = take k xs @ xs ! k # drop (Suc k) xs"
    by (rule id_take_nth_drop)
  from assms(1) have "distinct (map f (take k xs @ xs ! k # drop (Suc k) xs))"
    by (simp only: split [symmetric])
  from filter_out_middle [OF this] show ?thesis
    by (simp only: split [symmetric])
qed

lemma distinct_remove_nth:
  assumes "distinct xs"
  shows "distinct (take k xs @ drop (Suc k) xs)"
proof -
  have "set (take k xs) \<inter> set (drop (Suc k) xs) = {}"
    using assms by (rule set_take_disj_set_drop_if_distinct) simp
  with assms show ?thesis by simp
qed

lemma set_remove_nth: "set (take k xs @ drop (Suc k) xs) \<subseteq> set xs"
  using set_take_subset [of k xs] set_drop_subset [of "Suc k" xs] by auto

lemma take_drop_map_nth:
  assumes "k \<le> e" and "e \<le> length xs"
  shows "take (e - k) (drop k xs) = map ((!) xs) [k..<e]"
proof (rule nth_equalityI)
  show "length (take (e - k) (drop k xs)) = length (map ((!) xs) [k..<e])"
    using assms by simp
next
  fix i assume "i < length (take (e - k) (drop k xs))"
  with assms have i: "i < e - k" by simp
  with assms show "take (e - k) (drop k xs) ! i = map ((!) xs) [k..<e] ! i"
    by simp
qed

section \<open>The query parameters and the page\<close>

lemma query_page_spec: "query_page pageParam = spec_page (Atoi pageParam)"
  by (cases "pageParam = []") (simp_all add: query_page_def spec_page_def Atoi_empty split: option.splits)

lemma query_limit_spec: "query_limit limitParam = spec_limit (Atoi limitParam)"
  by (cases "limitParam = []") (simp_all add: query_limit_def spec_limit_def Atoi_empty split: option.splits)

lemma query_limit_range: "1 \<le> query_limit limitParam \<and> query_limit limitParam \<le> 100"
  by (simp add: query_limit_def split: option.splits)

lemma query_page_pos: "1 \<le> query_page pageParam"
  by (simp add: query_page_def split: option.splits)

lemma paginate_response:
  "paginate ts page limit = Inr r \<Longrightarrow>
     fst r = 200 \<and> (\<exists>pg. snd r = PageBody pg \<and> current_page pg = page \<and> per_page pg = limit \<and>
        total_count pg = int (length ts))"
  by (auto simp: paginate_def Let_def split: if_splits)

lemma paginate_first_page:
  assumes "1 \<le> limit" "limit \<le> 100"
  shows "\<exists>pg. paginate ts 1 limit = Inr (200, PageBody pg)"
proof -
  have "int64 limit = limit" using assms by (simp add: int64_id in_int64_def)
  with assms show ?thesis
    by (simp add: paginate_def Let_def int64_def)
qed

lemma paginate_total_pages:
  assumes "paginate ts page limit = Inr (code, PageBody pg)"
  shows "total_pages pg =
           (if int64 (int64 (int64 (int (length ts) + limit) - 1) sdiv limit) = 0 then 1
            else int64 (int64 (int64 (int (length ts) + limit) - 1) sdiv limit)) \<and>
         per_page pg = limit \<and> total_count pg = int (length ts)"
  using assms by (auto simp: paginate_def Let_def split: if_splits)

lemma paginate_without_overflow:
  assumes page: "1 \<le> page" and limit: "1 \<le> limit" "limit \<le> 100"
    and off: "(page - 1) * limit < 2 ^ 63"
    and len: "int (length ts) + 100 < 2 ^ 63"
  shows "paginate ts page limit =
     Inr (200, PageBody
       \<lparr>page_todos =
          (if int (length ts) \<le> (page - 1) * limit then []
           else map ((!) ts) [nat ((page - 1) * limit) ..<
                              nat (min ((page - 1) * limit + limit) (int (length ts)))]),
        total_count = int (length ts),
        current_page = page,
        total_pages = (if ts = [] then 1 else \<lceil>real (length ts) / real_of_int limit\<rceil>),
        per_page = limit,
        has_next = ((page - 1) * limit < int (length ts) \<and>
                    page < (if ts = [] then 1 else \<lceil>real (length ts) / real_of_int limit\<rceil>)),
        has_prev = (1 < page)\<rparr>)"
proof -
  let ?n = "int (length ts)"
  let ?off = "(page - 1) * limit"
  let ?tp = "(if ts = [] then 1 else \<lceil>real (length ts) / real_of_int limit\<rceil>)"
  have off0: "0 \<le> ?off" using page limit by simp
  have "page - 1 \<le> ?off" using page limit(1) by (simp add: mult_le_cancel_left1)
  with off page have "in_int64 (page - 1)" by (simp add: in_int64_def)
  then have p1: "int64 (page - 1) = page - 1" by (rule int64_id)
  from off off0 have "in_int64 ?off" by (simp add: in_int64_def)
  then have o: "int64 ?off = ?off" by (rule int64_id)
  have v: "int64 (int64 (int64 (?n + limit) - 1) sdiv limit) = (?n + limit - 1) div limit"
    using limit len by (intro total_pages_value) simp_all
  have z: "(?n + limit - 1) div limit = 0 \<longleftrightarrow> ts = []"
    using total_pages_zero_iff [of ?n limit] limit by simp
  have c: "\<lceil>real (length ts) / real_of_int limit\<rceil> = (?n + limit - 1) div limit"
    using ceiling_div_int [of limit ?n] limit(1) by simp
  have tp: "(if int64 (int64 (int64 (?n + limit) - 1) sdiv limit) = 0 then 1
             else int64 (int64 (int64 (?n + limit) - 1) sdiv limit)) = ?tp"
    using v z c by simp
  have l0: "limit \<noteq> 0" using limit by simp
  show ?thesis
  proof (cases "?n \<le> ?off")
    case True
    with tp l0 p1 o show ?thesis
      by (simp add: paginate_def Let_def)
  next
    case False
    then have lt: "?off < ?n" by simp
    with off0 limit len have "in_int64 (?off + limit)" by (simp add: in_int64_def)
    then have e: "int64 (?off + limit) = ?off + limit" by (rule int64_id)
    let ?e = "min (?off + limit) ?n"
    have e_def: "(if ?off + limit > ?n then ?n else ?off + limit) = ?e" by (simp add: min_def)
    have le: "?off \<le> ?e" using lt limit by simp
    have "take (nat ?e - nat ?off) (drop (nat ?off) ts) = map ((!) ts) [nat ?off ..< nat ?e]"
      using le off0 by (intro take_drop_map_nth) (simp_all add: nat_le_iff)
    moreover have "nat (?e - ?off) = nat ?e - nat ?off"
      using le off0 by (simp add: nat_diff_distrib)
    ultimately have sl: "take (nat (?e - ?off)) (drop (nat ?off) ts) = map ((!) ts) [nat ?off ..< nat ?e]"
      by simp
    from off0 have np1: "\<not> ?off < 0" by (simp only: not_less)
    from le have np2: "\<not> ?e < ?off" by (simp only: not_less)
    from np1 np2 have np: "\<not> (?off < 0 \<or> ?e < ?off)" by blast
    show ?thesis
      unfolding paginate_def Let_def p1 o e tp e_def
      using l0 lt np sl by simp
  qed
qed

text \<open>
  The specification's example: 25 records and limit 10. Page 1 holds 10 records, page 3
  holds 5, page 4 is empty, and the handler reports 3 pages throughout.
\<close>

lemma paginate_25_by_10:
  "paginate (replicate 25 sample) 1 10 =
     Inr (200, PageBody \<lparr>page_todos = replicate 10 sample, total_count = 25, current_page = 1,
            total_pages = 3, per_page = 10, has_next = True, has_prev = False\<rparr>) \<and>
   paginate (replicate 25 sample) 3 10 =
     Inr (200, PageBody \<lparr>page_todos = replicate 5 sample, total_count = 25, current_page = 3,
            total_pages = 3, per_page = 10, has_next = False, has_prev = True\<rparr>) \<and>
   paginate (replicate 25 sample) 4 10 =
     Inr (200, PageBody \<lparr>page_todos = [], total_count = 25, current_page = 4,
            total_pages = 3, per_page = 10, has_next = False, has_prev = True\<rparr>)"
  by (simp add: paginate_def int64_def Let_def signed_divide_int_def)

section \<open>Runs of requests\<close>

lemma created_ids_Cons:
  "created_ids (r # rs) = (case created_id r of None \<Rightarrow> created_ids rs | Some x \<Rightarrow> x # created_ids rs)"
  by (cases "created_id r") (simp_all add: created_ids_def List.map_filter_simps)

lemma created_id_CreateTodo:
  "CreateTodo s b now1 now2 = (resp, s') \<Longrightarrow>
     (created_id resp = None \<and> s' = s) \<or>
     (created_id resp = Some (nextID s) \<and> nextID s' = int64 (nextID s + 1) \<and>
      map ID (todos s') = map ID (todos s) @ [nextID s])"
  by (cases b) (auto simp: CreateTodo_def Let_def)

lemma UpdateTodo_ids:
  "UpdateTodo s idParam b now = (resp, s') \<Longrightarrow>
     created_id resp = None \<and> nextID s' = nextID s \<and> map ID (todos s') = map ID (todos s)"
proof -
  assume a: "UpdateTodo s idParam b now = (resp, s')"
  have upd: "map ID ((todos s)[k := u]) = map ID (todos s)"
    if "find_index (todos s) i = Some k" "ID u = i" for k u i
    using find_index_Some [OF that(1)] that(2)
    by (simp add: map_update list_update_same_conv)
  show ?thesis
    using a upd
    by (auto simp: UpdateTodo_def Let_def split: option.splits sum.splits)
qed

lemma DeleteTodo_ids:
  "DeleteTodo s idParam = (resp, s') \<Longrightarrow>
     created_id resp = None \<and> nextID s' = nextID s \<and>
     (s' = s \<or> (\<exists>k. todos s' = take k (todos s) @ drop (Suc k) (todos s)))"
  by (auto simp: DeleteTodo_def split: option.splits)

lemma GetTodo_not_created: "created_id (GetTodo s idParam) = None"
  by (simp add: GetTodo_def split: option.splits)

lemma GetTodos_not_created: "GetTodos s p l = Inr resp \<Longrightarrow> created_id resp = None"
  by (auto simp: GetTodos_def paginate_def Let_def split: if_splits)

lemma handle_cases:
  assumes "handle s r = (resp, s')"
  shows "(created_id resp = None \<and> nextID s' = nextID s \<and>
          (map ID (todos s') = map ID (todos s) \<or>
           (\<exists>k. todos s' = take k (todos s) @ drop (Suc k) (todos s)))) \<or>
         (created_id resp = Some (nextID s) \<and> nextID s' = int64 (nextID s + 1) \<and>
          map ID (todos s') = map ID (todos s) @ [nextID s])"
proof (cases r)
  case (POST_todos b now1 now2)
  with assms created_id_CreateTodo [of s b now1 now2 resp s'] show ?thesis by auto
next
  case (GET_todos p l)
  with assms GetTodos_not_created [of s p l] show ?thesis
    by (auto split: sum.splits)
next
  case (GET_todo i)
  with assms GetTodo_not_created [of s i] show ?thesis by auto
next
  case (PUT_todo i b now)
  with assms UpdateTodo_ids [of s i b now resp s'] show ?thesis by auto
next
  case (DELETE_todo i)
  with assms DeleteTodo_ids [of s i resp s'] show ?thesis by auto
qed

lemma run_created_ids:
  assumes "run s reqs = (resps, s')" and "in_int64 (nextID s)"
    and "nextID s + int (length (created_ids resps)) \<le> 2 ^ 63"
  shows "created_ids resps = [nextID s .. nextID s + int (length (created_ids resps)) - 1] \<and>
         nextID s' = int64 (nextID s + int (length (created_ids resps)))"
  using assms
proof (induction reqs arbitrary: s resps s')
  case Nil
  then show ?case by (simp add: created_ids_def List.map_filter_simps int64_id)
next
  case (Cons r rs)
  obtain resp s1 where h: "handle s r = (resp, s1)" by (cases "handle s r")
  obtain resps1 s2 where r1: "run s1 rs = (resps1, s2)" by (cases "run s1 rs")
  from Cons.prems(1) h r1 have eq: "resps = resp # resps1" and s2: "s2 = s'" by auto
  let ?n = "nextID s"
  let ?k1 = "int (length (created_ids resps1))"
  from handle_cases [OF h]
  have "(created_id resp = None \<and> nextID s1 = nextID s) \<or>
        (created_id resp = Some (nextID s) \<and> nextID s1 = int64 (nextID s + 1))"
    by blast
  then show ?case
  proof (elim disjE conjE)
    assume c: "created_id resp = None" and n: "nextID s1 = nextID s"
    from c eq have ids: "created_ids resps = created_ids resps1"
      by (simp add: created_ids_Cons)
    from Cons.IH [OF r1] Cons.prems(2,3) n ids s2 show ?thesis by simp
  next
    assume c: "created_id resp = Some (nextID s)" and n: "nextID s1 = int64 (nextID s + 1)"
    from c eq have ids: "created_ids resps = ?n # created_ids resps1"
      by (simp add: created_ids_Cons)
    with Cons.prems(3) have bound: "?n + 1 + ?k1 \<le> 2 ^ 63" by simp
    have in1: "in_int64 (nextID s1)" using n by (simp add: in_int64_int64)
    have nowrap: "nextID s1 = ?n + 1" if "created_ids resps1 \<noteq> []"
    proof -
      from that have "1 \<le> length (created_ids resps1)"
        by (cases "created_ids resps1") simp_all
      then have "1 \<le> ?k1" by linarith
      with bound Cons.prems(2) have "in_int64 (?n + 1)"
        unfolding in_int64_def by linarith
      with n show ?thesis by (simp add: int64_id)
    qed
    have le1: "nextID s1 + ?k1 \<le> 2 ^ 63"
    proof (cases "created_ids resps1 = []")
      case True
      with in1 show ?thesis by (simp add: in_int64_def)
    next
      case False
      from nowrap [OF False] bound show ?thesis by simp
    qed
    from Cons.IH [OF r1 in1 le1]
    have ih: "created_ids resps1 = [nextID s1 .. nextID s1 + ?k1 - 1]"
      and fin: "nextID s2 = int64 (nextID s1 + ?k1)" by simp_all
    note fin = fin [unfolded s2]
    have tail: "created_ids resps1 = [?n + 1 .. ?n + ?k1]"
    proof (cases "created_ids resps1 = []")
      case True
      then show ?thesis by simp
    next
      case False
      from nowrap [OF False] ih show ?thesis by (simp add: algebra_simps)
    qed
    have "[?n .. ?n + ?k1] = ?n # [?n + 1 .. ?n + ?k1]"
      by (rule upto_rec1) simp
    with tail ids have A: "created_ids resps = [?n .. ?n + int (length (created_ids resps)) - 1]"
      by (simp add: algebra_simps)
    have "int64 (nextID s1 + ?k1) = int64 (?n + 1 + ?k1)"
      unfolding n by (rule int64_add_left)
    with fin ids have B: "nextID s' = int64 (?n + int (length (created_ids resps)))"
      by (simp add: algebra_simps)
    from A B show ?thesis by simp
  qed
qed

text \<open>
  The ids in the store stay distinct and below the counter, as long as the counter has
  not wrapped around.
\<close>

lemma handle_ids_invariant:
  assumes h: "handle s r = (resp, s')"
    and d: "distinct (map ID (todos s))"
    and lt: "\<forall>x\<in>set (map ID (todos s)). x < nextID s"
    and nw: "created_id resp \<noteq> None \<longrightarrow> nextID s + 1 < 2 ^ 63"
    and r: "in_int64 (nextID s)"
  shows "distinct (map ID (todos s')) \<and> (\<forall>x\<in>set (map ID (todos s')). x < nextID s') \<and>
         in_int64 (nextID s')"
proof -
  from handle_cases [OF h]
  consider (same) "created_id resp = None" "nextID s' = nextID s"
                  "map ID (todos s') = map ID (todos s)"
    | (removed) k where "created_id resp = None" "nextID s' = nextID s"
                  "todos s' = take k (todos s) @ drop (Suc k) (todos s)"
    | (created) "created_id resp = Some (nextID s)" "nextID s' = int64 (nextID s + 1)"
                  "map ID (todos s') = map ID (todos s) @ [nextID s]"
    by (elim disjE conjE exE) auto
  then show ?thesis
  proof cases
    case same
    with d lt r show ?thesis by simp
  next
    case removed
    have m: "map ID (todos s') = take k (map ID (todos s)) @ drop (Suc k) (map ID (todos s))"
      by (simp add: removed(3) take_map drop_map)
    from d have "distinct (map ID (todos s'))"
      unfolding m by (rule distinct_remove_nth)
    moreover have "set (map ID (todos s')) \<subseteq> set (map ID (todos s))"
      unfolding m by (rule set_remove_nth)
    ultimately show ?thesis using lt r removed(2) by auto
  next
    case created
    with nw r have "in_int64 (nextID s + 1)" by (simp add: in_int64_def)
    with created(2) have n: "nextID s' = nextID s + 1" by (simp add: int64_id)
    from lt have "nextID s \<notin> set (map ID (todos s))" by auto
    with d lt created(3) n r nw created(1) show ?thesis
      by (auto simp: in_int64_def)
  qed
qed

lemma run_ids_invariant:
  assumes "run s reqs = (resps, s')" and "in_int64 (nextID s)"
    and "nextID s + int (length (created_ids resps)) < 2 ^ 63"
    and "distinct (map ID (todos s))"
    and "\<forall>x\<in>set (map ID (todos s)). x < nextID s"
  shows "distinct (map ID (todos s')) \<and> (\<forall>x\<in>set (map ID (todos s')). x < nextID s')"
  using assms
proof (induction reqs arbitrary: s resps s')
  case Nil
  then show ?case by simp
next
  case (Cons r rs)
  obtain resp s1 where h: "handle s r = (resp, s1)" by (cases "handle s r")
  obtain resps1 s2 where r1: "run s1 rs = (resps1, s2)" by (cases "run s1 rs")
  from Cons.prems(1) h r1 have eq: "resps = resp # resps1" and s2: "s2 = s'" by auto
  let ?k1 = "int (length (created_ids resps1))"
  have len: "int (length (created_ids resps)) =
      (if created_id resp = None then 0 else 1) + ?k1"
    unfolding eq by (cases "created_id resp") (simp_all add: created_ids_Cons)
  have k1: "0 \<le> ?k1" by simp
  from len Cons.prems(3) k1 have nw: "created_id resp \<noteq> None \<longrightarrow> nextID s + 1 < 2 ^ 63"
    by (auto split: if_splits)
  from handle_ids_invariant [OF h Cons.prems(4,5) nw Cons.prems(2)]
  have inv1: "distinct (map ID (todos s1))" "\<forall>x\<in>set (map ID (todos s1)). x < nextID s1"
    "in_int64 (nextID s1)" by simp_all
  have next1: "nextID s1 = nextID s + (if created_id resp = None then 0 else 1)"
  proof (cases "created_id resp = None")
    case True
    with handle_cases [OF h] show ?thesis by auto
  next
    case False
    with nw Cons.prems(2) have "in_int64 (nextID s + 1)" by (simp add: in_int64_def)
    with handle_cases [OF h] False show ?thesis by (auto simp: int64_id)
  qed
  with len Cons.prems(3) have b1: "nextID s1 + ?k1 < 2 ^ 63" by (simp split: if_splits)
  from Cons.IH [OF r1 inv1(3) b1 inv1(1,2)] s2 show ?case by simp
qed

lemma reachable_ids_distinct:
  assumes "run init_store reqs = (resps, s')"
    and "int (length (created_ids resps)) < 2 ^ 63 - 1"
  shows "distinct (map ID (todos s')) \<and> nextID s' \<notin> ID ` set (todos s')"
proof -
  have "in_int64 (nextID init_store)" by (simp add: init_store_def in_int64_def)
  moreover from assms(2) have "nextID init_store + int (length (created_ids resps)) < 2 ^ 63"
    by (simp add: init_store_def)
  moreover have "distinct (map ID (todos init_store))"
    "\<forall>x\<in>set (map ID (todos init_store)). x < nextID init_store"
    by (simp_all add: init_store_def)
  ultimately have "distinct (map ID (todos s')) \<and> (\<forall>x\<in>set (map ID (todos s')). x < nextID s')"
    by (rule run_ids_invariant [OF assms(1)])
  then show ?thesis by auto
qed

section \<open>Identifiers\<close>

text \<open>
  Claim C1. In every run of requests from the empty store, the ids returned by the
  successful creations are \<open>1, 2, 3, \<dots>\<close> in order: each is one greater than the one
  before, whatever deletions (or other requests) come in between, so no id is handed out
  twice and the counter ends at the number of creations plus one. The run is bounded by
  the range of the 64-bit counter: fewer than \<open>2^63\<close> successful creations.
\<close>

theorem created_ids_sequential:
  assumes "run init_store reqs = (resps, s')"
    and "int (length (created_ids resps)) < 2 ^ 63"
  shows "created_ids resps = [1 .. int (length (created_ids resps))] \<and>
         distinct (created_ids resps) \<and>
         nextID s' = int64 (1 + int (length (created_ids resps)))"
proof -
  have "in_int64 (nextID init_store)" by (simp add: init_store_def in_int64_def)
  moreover from assms(2) have "nextID init_store + int (length (created_ids resps)) \<le> 2 ^ 63"
    by (simp add: init_store_def)
  ultimately have A: "created_ids resps = [1 .. int (length (created_ids resps))]"
    and B: "nextID s' = int64 (1 + int (length (created_ids resps)))"
    using run_created_ids [OF assms(1)] by (simp_all add: init_store_def)
  have "distinct [1 .. int (length (created_ids resps))]" by simp
  with A have "distinct (created_ids resps)" by simp
  with A B show ?thesis by simp
qed

theorem created_ids_sequential_witness:
  "run init_store [POST_todos (Inr sample) 1 2, DELETE_todo ''1'', POST_todos (Inl ''EOF'') 3 4,
                   POST_todos (Inr sample) 5 6] =
     ([(201, TodoBody (sample\<lparr>ID := 1, CreatedAt := 1, UpdatedAt := 2\<rparr>)),
       (200, MessageBody ''Todo deleted successfully''),
       (400, ErrorBody ''EOF''),
       (201, TodoBody (sample\<lparr>ID := 2, CreatedAt := 5, UpdatedAt := 6\<rparr>))],
      \<lparr>todos = [sample\<lparr>ID := 2, CreatedAt := 5, UpdatedAt := 6\<rparr>], nextID = 3\<rparr>) \<and>
   created_ids [(201, TodoBody (sample\<lparr>ID := 1, CreatedAt := 1, UpdatedAt := 2\<rparr>)),
       (200, MessageBody ''Todo deleted successfully''),
       (400, ErrorBody ''EOF''),
       (201, TodoBody (sample\<lparr>ID := 2, CreatedAt := 5, UpdatedAt := 6\<rparr>))] = [1, 2] \<and>
   int (length [1, 2 :: int]) < 2 ^ 63"
proof -
  let ?reqs = "[POST_todos (Inr sample) 1 2, DELETE_todo ''1'', POST_todos (Inl ''EOF'') 3 4,
                POST_todos (Inr sample) 5 6]"
  let ?resps = "[(201, TodoBody (sample\<lparr>ID := 1, CreatedAt := 1, UpdatedAt := 2\<rparr>)),
       (200, MessageBody ''Todo deleted successfully''),
       (400, ErrorBody ''EOF''),
       (201, TodoBody (sample\<lparr>ID := 2, CreatedAt := 5, UpdatedAt := 6\<rparr>))]"
  let ?s = "\<lparr>todos = [sample\<lparr>ID := 2, CreatedAt := 5, UpdatedAt := 6\<rparr>], nextID = 3\<rparr>"
  have r: "run init_store ?reqs = (?resps, ?s)"
    by (simp add: init_store_def CreateTodo_def DeleteTodo_def Atoi_def int64_def Let_def)
  have len: "length (created_ids ?resps) = 2"
    by (simp add: created_ids_def List.map_filter_simps)
  then have b: "int (length (created_ids ?resps)) < 2 ^ 63"
    by simp
  have "[1 .. int (length (created_ids ?resps))] = [1, 2]"
    unfolding len by (simp add: upto.simps)
  with created_ids_sequential [OF r b] r b show ?thesis
    by simp
qed

section \<open>Creation\<close>

text \<open>
  On a decoded body, creation does not depend on the body's \<open>id\<close>, \<open>created_at\<close> and
  \<open>updated_at\<close>: the stored record takes its id from the counter and its two timestamps
  from the clock readings.
\<close>

lemma create_decoded_body:
  "CreateTodo s (Inr (t\<lparr>ID := i, CreatedAt := c, UpdatedAt := u\<rparr>)) now1 now2 =
     CreateTodo s (Inr t) now1 now2 \<and>
   CreateTodo s (Inr t) now1 now2 =
     ((201, TodoBody \<lparr>ID = nextID s, Title = Title t, Description = Description t,
                       Completed = Completed t, CreatedAt = now1, UpdatedAt = now2\<rparr>),
      \<lparr>todos = todos s @ [\<lparr>ID = nextID s, Title = Title t, Description = Description t,
                       Completed = Completed t, CreatedAt = now1, UpdatedAt = now2\<rparr>],
        nextID = int64 (nextID s + 1)\<rparr>)"
  by (cases t) (simp add: CreateTodo_def Let_def)

text \<open>
  Claim C10, as amended. The claim speaks of every request body and any supplied value.
  That fails for a value of the wrong type: the decoder refuses the whole body, so the
  request is answered with 400 and nothing is stored, while the same body without the
  key is created. For every body whose values have the types of their keys, the claim
  holds: whatever the body supplies for \<open>id\<close>, \<open>created_at\<close> and \<open>updated_at\<close>, the
  handler does what it does for the body without these three keys; the stored record
  takes its id from the counter and its timestamps from the clock, and title,
  description and completed from the body.
\<close>

theorem create_ignores_well_typed_fields:
  "(well_typed obj \<longrightarrow>
      CreateTodo s (ShouldBindJSON (Object obj) err) now1 now2 =
        CreateTodo s (ShouldBindJSON (Object (obj\<lparr>json_id := Absent, json_created_at := Absent,
                                                  json_updated_at := Absent\<rparr>)) err) now1 now2 \<and>
      CreateTodo s (ShouldBindJSON (Object obj) err) now1 now2 =
        ((201, TodoBody \<lparr>ID = nextID s, Title = field_value [] (json_title obj),
                  Description = field_value [] (json_description obj),
                  Completed = field_value False (json_completed obj),
                  CreatedAt = now1, UpdatedAt = now2\<rparr>),
         \<lparr>todos = todos s @ [\<lparr>ID = nextID s, Title = field_value [] (json_title obj),
                  Description = field_value [] (json_description obj),
                  Completed = field_value False (json_completed obj),
                  CreatedAt = now1, UpdatedAt = now2\<rparr>],
           nextID = int64 (nextID s + 1)\<rparr>)) \<and>
   (\<not> well_typed obj \<longrightarrow>
      CreateTodo s (ShouldBindJSON (Object obj) err) now1 now2 = ((400, ErrorBody err), s))"
proof -
  have a: "CreateTodo s (ShouldBindJSON (Object obj) err) now1 now2 = ((400, ErrorBody err), s)"
    if "\<not> well_typed obj"
    using that by (simp add: ShouldBindJSON_def CreateTodo_def)
  have w: "well_typed (obj\<lparr>json_id := Absent, json_created_at := Absent,
                          json_updated_at := Absent\<rparr>)" if "well_typed obj"
    using that by (simp add: well_typed_def)
  have b: "CreateTodo s (ShouldBindJSON (Object obj) err) now1 now2 =
        ((201, TodoBody \<lparr>ID = nextID s, Title = field_value [] (json_title obj),
                  Description = field_value [] (json_description obj),
                  Completed = field_value False (json_completed obj),
                  CreatedAt = now1, UpdatedAt = now2\<rparr>),
         \<lparr>todos = todos s @ [\<lparr>ID = nextID s, Title = field_value [] (json_title obj),
                  Description = field_value [] (json_description obj),
                  Completed = field_value False (json_completed obj),
                  CreatedAt = now1, UpdatedAt = now2\<rparr>],
           nextID = int64 (nextID s + 1)\<rparr>)"
    if "well_typed obj"
    using that by (simp add: ShouldBindJSON_def create_decoded_body)
  have c: "CreateTodo s (ShouldBindJSON (Object obj) err) now1 now2 =
        CreateTodo s (ShouldBindJSON (Object (obj\<lparr>json_id := Absent, json_created_at := Absent,
                                                  json_updated_at := Absent\<rparr>)) err) now1 now2"
    if "well_typed obj"
    using that w [OF that] by (simp add: ShouldBindJSON_def create_decoded_body)
  from a b c show ?thesis by blast
qed

theorem create_ignores_well_typed_fields_witness:
  "well_typed \<lparr>json_id = Present 7, json_title = Present ''t'', json_description = Absent,
               json_completed = Absent, json_created_at = Present 5, json_updated_at = Absent\<rparr> \<and>
   CreateTodo init_store
     (ShouldBindJSON (Object \<lparr>json_id = Present 7, json_title = Present ''t'',
        json_description = Absent, json_completed = Absent, json_created_at = Present 5,
        json_updated_at = Absent\<rparr>) ''unused'') 1000 1001 =
     ((201, TodoBody \<lparr>ID = 1, Title = ''t'', Description = [], Completed = False,
               CreatedAt = 1000, UpdatedAt = 1001\<rparr>),
      \<lparr>todos = [\<lparr>ID = 1, Title = ''t'', Description = [], Completed = False,
               CreatedAt = 1000, UpdatedAt = 1001\<rparr>], nextID = 2\<rparr>) \<and>
   CreateTodo init_store
     (ShouldBindJSON (Object \<lparr>json_id = Absent, json_title = Present ''t'',
        json_description = Absent, json_completed = Absent, json_created_at = Absent,
        json_updated_at = Absent\<rparr>) ''unused'') 1000 1001 =
     ((201, TodoBody \<lparr>ID = 1, Title = ''t'', Description = [], Completed = False,
               CreatedAt = 1000, UpdatedAt = 1001\<rparr>),
      \<lparr>todos = [\<lparr>ID = 1, Title = ''t'', Description = [], Completed = False,
               CreatedAt = 1000, UpdatedAt = 1001\<rparr>], nextID = 2\<rparr>) \<and>
   \<not> well_typed \<lparr>json_id = Mistyped, json_title = Present ''t'', json_description = Absent,
               json_completed = Absent, json_created_at = Absent, json_updated_at = Absent\<rparr> \<and>
   CreateTodo init_store
     (ShouldBindJSON (Object \<lparr>json_id = Mistyped, json_title = Present ''t'',
        json_description = Absent, json_completed = Absent, json_created_at = Absent,
        json_updated_at = Absent\<rparr>) ''type error'') 1000 1001 =
     ((400, ErrorBody ''type error''), init_store)"
proof -
  let ?good = "\<lparr>json_id = Present 7, json_title = Present ''t'', json_description = Absent,
               json_completed = Absent, json_created_at = Present 5, json_updated_at = Absent\<rparr>"
  let ?bad = "\<lparr>json_id = Mistyped, json_title = Present ''t'', json_description = Absent,
               json_completed = Absent, json_created_at = Absent, json_updated_at = Absent\<rparr>"
  have g: "well_typed ?good" by (simp add: well_typed_def)
  have n: "\<not> well_typed ?bad" by (simp add: well_typed_def)
  let ?omitted = "\<lparr>json_id = Absent, json_title = Present ''t'', json_description = Absent,
               json_completed = Absent, json_created_at = Absent, json_updated_at = Absent\<rparr>"
  let ?res = "((201, TodoBody \<lparr>ID = 1, Title = ''t'', Description = [], Completed = False,
               CreatedAt = 1000, UpdatedAt = 1001\<rparr>),
      \<lparr>todos = [\<lparr>ID = 1, Title = ''t'', Description = [], Completed = False,
               CreatedAt = 1000, UpdatedAt = 1001\<rparr>], nextID = 2\<rparr>)"
  note good = create_ignores_well_typed_fields [of ?good init_store "''unused''" 1000 1001]
  note bad = create_ignores_well_typed_fields [of ?bad init_store "''type error''" 1000 1001]
  from good g have both:
    "CreateTodo init_store (ShouldBindJSON (Object ?good) ''unused'') 1000 1001 =
       CreateTodo init_store (ShouldBindJSON (Object (?good\<lparr>json_id := Absent,
         json_created_at := Absent, json_updated_at := Absent\<rparr>)) ''unused'') 1000 1001 \<and>
     CreateTodo init_store (ShouldBindJSON (Object ?good) ''unused'') 1000 1001 =
       ((201, TodoBody \<lparr>ID = nextID init_store, Title = field_value [] (json_title ?good),
                  Description = field_value [] (json_description ?good),
                  Completed = field_value False (json_completed ?good),
                  CreatedAt = 1000, UpdatedAt = 1001\<rparr>),
         \<lparr>todos = todos init_store @ [\<lparr>ID = nextID init_store,
                  Title = field_value [] (json_title ?good),
                  Description = field_value [] (json_description ?good),
                  Completed = field_value False (json_completed ?good),
                  CreatedAt = 1000, UpdatedAt = 1001\<rparr>],
           nextID = int64 (nextID init_store + 1)\<rparr>)"
    by blast
  from both [THEN conjunct1]
  have e1: "CreateTodo init_store (ShouldBindJSON (Object ?good) ''unused'') 1000 1001 =
            CreateTodo init_store (ShouldBindJSON (Object ?omitted) ''unused'') 1000 1001"
    by simp
  from both [THEN conjunct2]
  have e2: "CreateTodo init_store (ShouldBindJSON (Object ?good) ''unused'') 1000 1001 = ?res"
    by (simp add: init_store_def int64_def)
  have e3: "CreateTodo init_store (ShouldBindJSON (Object ?omitted) ''unused'') 1000 1001 = ?res"
    unfolding e1 [symmetric] by (rule e2)
  from bad n
  have e4: "CreateTodo init_store (ShouldBindJSON (Object ?bad) ''type error'') 1000 1001 =
            ((400, ErrorBody ''type error''), init_store)"
    by simp
  from g n e2 e3 e4 show ?thesis
    by blast
qed

text \<open>
  The claim as stated fails: the body \<^verbatim>\<open>{"title": "t", "id": "7"}\<close> supplies a value
  for \<open>id\<close> and is answered with 400, nothing stored; the body \<^verbatim>\<open>{"title": "t"}\<close>, which
  omits the key, is answered with 201 and stored.
\<close>

theorem create_mistyped_id_refused:
  "CreateTodo init_store
     (ShouldBindJSON (Object \<lparr>json_id = Mistyped, json_title = Present ''t'',
        json_description = Absent, json_completed = Absent, json_created_at = Absent,
        json_updated_at = Absent\<rparr>)
        ''json: cannot unmarshal string into Go struct field Todo.id of type int'') 1000 1001 =
     ((400, ErrorBody ''json: cannot unmarshal string into Go struct field Todo.id of type int''),
      init_store) \<and>
   CreateTodo init_store
     (ShouldBindJSON (Object \<lparr>json_id = Absent, json_title = Present ''t'',
        json_description = Absent, json_completed = Absent, json_created_at = Absent,
        json_updated_at = Absent\<rparr>)
        ''json: cannot unmarshal string into Go struct field Todo.id of type int'') 1000 1001 =
     ((201, TodoBody \<lparr>ID = 1, Title = ''t'', Description = [], Completed = False,
               CreatedAt = 1000, UpdatedAt = 1001\<rparr>),
      \<lparr>todos = [\<lparr>ID = 1, Title = ''t'', Description = [], Completed = False,
               CreatedAt = 1000, UpdatedAt = 1001\<rparr>], nextID = 2\<rparr>) \<and>
   CreateTodo init_store
     (ShouldBindJSON (Object \<lparr>json_id = Mistyped, json_title = Present ''t'',
        json_description = Absent, json_completed = Absent, json_created_at = Absent,
        json_updated_at = Absent\<rparr>)
        ''json: cannot unmarshal string into Go struct field Todo.id of type int'') 1000 1001 \<noteq>
   CreateTodo init_store
     (ShouldBindJSON (Object \<lparr>json_id = Absent, json_title = Present ''t'',
        json_description = Absent, json_completed = Absent, json_created_at = Absent,
        json_updated_at = Absent\<rparr>)
        ''json: cannot unmarshal string into Go struct field Todo.id of type int'') 1000 1001"
  by (simp add: ShouldBindJSON_def well_typed_def CreateTodo_def init_store_def int64_def Let_def)

text \<open>
  Creation followed by a lookup of the new id returns the stored record: the fields of
  the body, the id taken from the counter, and the two clock readings. The id must be
  fresh, which holds in every store reached from the empty one (\<open>reachable_ids_distinct\<close>).
\<close>

lemma create_then_get:
  assumes "Atoi idParam = Some (nextID s)" and "nextID s \<notin> ID ` set (todos s)"
  shows "fst (CreateTodo s (Inr d) now1 now2) =
           (201, TodoBody \<lparr>ID = nextID s, Title = Title d, Description = Description d,
                   Completed = Completed d, CreatedAt = now1, UpdatedAt = now2\<rparr>) \<and>
         GetTodo (snd (CreateTodo s (Inr d) now1 now2)) idParam =
           (200, TodoBody \<lparr>ID = nextID s, Title = Title d, Description = Description d,
                   Completed = Completed d, CreatedAt = now1, UpdatedAt = now2\<rparr>)"
proof -
  let ?t = "\<lparr>ID = nextID s, Title = Title d, Description = Description d,
              Completed = Completed d, CreatedAt = now1, UpdatedAt = now2\<rparr>"
  have c: "CreateTodo s (Inr d) now1 now2 =
      ((201, TodoBody ?t), \<lparr>todos = todos s @ [?t], nextID = int64 (nextID s + 1)\<rparr>)"
    by (cases d) (simp add: CreateTodo_def Let_def)
  from assms(2) have "find_index (todos s @ [?t]) (nextID s) = Some (length (todos s))"
    by (rule find_index_append_new) simp
  with assms(1) c show ?thesis
    by (simp add: GetTodo_def)
qed

text \<open>
  Claim C7. The claim wants \<open>created_at\<close> and \<open>updated_at\<close> of a new record to be
  equal. \<^verbatim>\<open>CreateTodo\<close> calls \<^verbatim>\<open>time.Now()\<close> once for each field, so the record
  holds two successive readings of the clock. With the readings 1000 and 1001 the
  record that is stored, returned with 201 and found again by \<^verbatim>\<open>GetTodo\<close> has
  \<open>created_at = 1000\<close> and \<open>updated_at = 1001\<close>.
\<close>

theorem create_reads_clock_twice:
  "CreateTodo init_store (Inr sample) 1000 1001 =
     ((201, TodoBody \<lparr>ID = 1, Title = ''Learn Go'', Description = ''Complete Go tutorial'',
               Completed = False, CreatedAt = 1000, UpdatedAt = 1001\<rparr>),
      \<lparr>todos = [\<lparr>ID = 1, Title = ''Learn Go'', Description = ''Complete Go tutorial'',
               Completed = False, CreatedAt = 1000, UpdatedAt = 1001\<rparr>], nextID = 2\<rparr>) \<and>
   GetTodo \<lparr>todos = [\<lparr>ID = 1, Title = ''Learn Go'', Description = ''Complete Go tutorial'',
               Completed = False, CreatedAt = 1000, UpdatedAt = 1001\<rparr>], nextID = 2\<rparr> ''1'' =
     (200, TodoBody \<lparr>ID = 1, Title = ''Learn Go'', Description = ''Complete Go tutorial'',
               Completed = False, CreatedAt = 1000, UpdatedAt = 1001\<rparr>) \<and>
   CreatedAt \<lparr>ID = 1, Title = ''Learn Go'', Description = ''Complete Go tutorial'',
               Completed = False, CreatedAt = 1000, UpdatedAt = 1001\<rparr> \<noteq>
   UpdatedAt \<lparr>ID = 1, Title = ''Learn Go'', Description = ''Complete Go tutorial'',
               Completed = False, CreatedAt = 1000, UpdatedAt = 1001\<rparr>"
  by (simp add: CreateTodo_def GetTodo_def Atoi_def init_store_def sample_def int64_def Let_def)

section \<open>Update and delete\<close>

text \<open>
  Claim C5. When the store holds a record with the given id, update answers 200 and
  replaces the first such record, at its position \<open>k\<close>, by a record with the same id,
  the same \<open>created_at\<close>, \<open>updated_at\<close> set to the clock reading, and title, description
  and completed taken from the body. The store keeps its length, every other position
  keeps its record, and the counter is unchanged.
\<close>

theorem update_in_place:
  assumes "Atoi idParam = Some i" and "i \<in> ID ` set (todos s)"
  shows "\<exists>k<length (todos s). ID (todos s ! k) = i \<and> (\<forall>j<k. ID (todos s ! j) \<noteq> i) \<and>
           (let old = todos s ! k;
                new = \<lparr>ID = ID old, Title = Title d, Description = Description d,
                        Completed = Completed d, CreatedAt = CreatedAt old, UpdatedAt = now\<rparr>;
                s' = snd (UpdateTodo s idParam (Inr d) now)
            in fst (UpdateTodo s idParam (Inr d) now) = (200, TodoBody new) \<and>
               length (todos s') = length (todos s) \<and>
               todos s' ! k = new \<and>
               (\<forall>j<length (todos s). j \<noteq> k \<longrightarrow> todos s' ! j = todos s ! j) \<and>
               nextID s' = nextID s)"
proof -
  from assms(2) obtain k where k: "find_index (todos s) i = Some k"
    using find_index_present by blast
  note fk = find_index_Some [OF k]
  let ?u = "\<lparr>ID = ID (todos s ! k), Title = Title d, Description = Description d,
                Completed = Completed d, CreatedAt = CreatedAt (todos s ! k), UpdatedAt = now\<rparr>"
  have "UpdateTodo s idParam (Inr d) now =
             ((200, TodoBody ?u), s\<lparr>todos := (todos s)[k := ?u]\<rparr>)"
    using assms(1) k fk by (cases d) (simp add: UpdateTodo_def Let_def)
  with fk show ?thesis by (auto simp: Let_def)
qed

theorem update_in_place_witness:
  "Atoi ''3'' = Some 3 \<and> 3 \<in> ID ` set (todos two_todos) \<and>
   UpdateTodo two_todos ''3'' (Inr sample) 99 =
     ((200, TodoBody \<lparr>ID = 3, Title = ''Learn Go'', Description = ''Complete Go tutorial'',
               Completed = False, CreatedAt = 30, UpdatedAt = 99\<rparr>),
      \<lparr>todos = [\<lparr>ID = 1, Title = ''a'', Description = ''x'', Completed = False,
                  CreatedAt = 10, UpdatedAt = 11\<rparr>,
                \<lparr>ID = 3, Title = ''Learn Go'', Description = ''Complete Go tutorial'',
                  Completed = False, CreatedAt = 30, UpdatedAt = 99\<rparr>],
        nextID = 4\<rparr>) \<and>
   (\<exists>k<length (todos two_todos). ID (todos two_todos ! k) = 3 \<and>
      todos (snd (UpdateTodo two_todos ''3'' (Inr sample) 99)) ! k =
        \<lparr>ID = 3, Title = ''Learn Go'', Description = ''Complete Go tutorial'',
               Completed = False, CreatedAt = CreatedAt (todos two_todos ! k), UpdatedAt = 99\<rparr>)"
proof -
  have a: "Atoi ''3'' = Some 3" by (simp add: Atoi_def)
  have b: "3 \<in> ID ` set (todos two_todos)" by (simp add: two_todos_def)
  have c: "UpdateTodo two_todos ''3'' (Inr sample) 99 =
     ((200, TodoBody \<lparr>ID = 3, Title = ''Learn Go'', Description = ''Complete Go tutorial'',
               Completed = False, CreatedAt = 30, UpdatedAt = 99\<rparr>),
      \<lparr>todos = [\<lparr>ID = 1, Title = ''a'', Description = ''x'', Completed = False,
                  CreatedAt = 10, UpdatedAt = 11\<rparr>,
                \<lparr>ID = 3, Title = ''Learn Go'', Description = ''Complete Go tutorial'',
                  Completed = False, CreatedAt = 30, UpdatedAt = 99\<rparr>],
        nextID = 4\<rparr>)"
    by (simp add: UpdateTodo_def a two_todos_def sample_def Let_def)
  from update_in_place [OF a b, of sample 99]
  obtain k where "k < length (todos two_todos)" "ID (todos two_todos ! k) = 3"
    "todos (snd (UpdateTodo two_todos ''3'' (Inr sample) 99)) ! k =
        \<lparr>ID = ID (todos two_todos ! k), Title = Title sample, Description = Description sample,
               Completed = Completed sample, CreatedAt = CreatedAt (todos two_todos ! k), UpdatedAt = 99\<rparr>"
    by (auto simp: Let_def)
  then have "\<exists>k<length (todos two_todos). ID (todos two_todos ! k) = 3 \<and>
      todos (snd (UpdateTodo two_todos ''3'' (Inr sample) 99)) ! k =
        \<lparr>ID = 3, Title = ''Learn Go'', Description = ''Complete Go tutorial'',
               Completed = False, CreatedAt = CreatedAt (todos two_todos ! k), UpdatedAt = 99\<rparr>"
    by (auto simp: sample_def)
  with a b c show ?thesis by blast
qed

text \<open>
  Claim C8. When the store holds a record with the given id, delete answers 200 and
  removes the first such record, at its position \<open>k\<close>: the records before and after it
  stay in their order. When the ids of the store are distinct, which is the store's
  invariant (\<open>reachable_ids_distinct\<close>), exactly the records with another id remain, and
  both a lookup and a second delete of the id answer 404.
\<close>

theorem delete_removes_record:
  assumes "Atoi idParam = Some i" and "i \<in> ID ` set (todos s)"
  shows "\<exists>k<length (todos s). ID (todos s ! k) = i \<and> (\<forall>j<k. ID (todos s ! j) \<noteq> i) \<and>
           (let s' = s\<lparr>todos := take k (todos s) @ drop (Suc k) (todos s)\<rparr>
            in DeleteTodo s idParam = ((200, MessageBody ''Todo deleted successfully''), s') \<and>
               (distinct (map ID (todos s)) \<longrightarrow>
                  todos s' = filter (\<lambda>t. ID t \<noteq> i) (todos s) \<and>
                  GetTodo s' idParam = (404, ErrorBody ''Todo not found'') \<and>
                  DeleteTodo s' idParam = ((404, ErrorBody ''Todo not found''), s')))"
proof -
  from assms(2) obtain k where k: "find_index (todos s) i = Some k"
    using find_index_present by blast
  note fk = find_index_Some [OF k]
  let ?s' = "s\<lparr>todos := take k (todos s) @ drop (Suc k) (todos s)\<rparr>"
  have del: "DeleteTodo s idParam = ((200, MessageBody ''Todo deleted successfully''), ?s')"
    using assms(1) k by (simp add: DeleteTodo_def)
  have after: "todos ?s' = filter (\<lambda>t. ID t \<noteq> i) (todos s) \<and>
      GetTodo ?s' idParam = (404, ErrorBody ''Todo not found'') \<and>
      DeleteTodo ?s' idParam = ((404, ErrorBody ''Todo not found''), ?s')"
    if d: "distinct (map ID (todos s))"
  proof -
    from remove_nth_filter [OF d, of k] fk
    have f: "take k (todos s) @ drop (Suc k) (todos s) = filter (\<lambda>t. ID t \<noteq> i) (todos s)"
      by simp
    have "find_index (filter (\<lambda>t. ID t \<noteq> i) (todos s)) i = None"
      unfolding find_index_None_iff by auto
    with assms(1) f show ?thesis
      by (simp add: GetTodo_def DeleteTodo_def)
  qed
  from fk del after show ?thesis by (auto simp: Let_def)
qed

theorem delete_removes_record_witness:
  "Atoi ''1'' = Some 1 \<and> 1 \<in> ID ` set (todos two_todos) \<and> distinct (map ID (todos two_todos)) \<and>
   DeleteTodo two_todos ''1'' =
     ((200, MessageBody ''Todo deleted successfully''),
      \<lparr>todos = [\<lparr>ID = 3, Title = ''b'', Description = ''y'', Completed = True,
                  CreatedAt = 30, UpdatedAt = 31\<rparr>], nextID = 4\<rparr>) \<and>
   GetTodo \<lparr>todos = [\<lparr>ID = 3, Title = ''b'', Description = ''y'', Completed = True,
                  CreatedAt = 30, UpdatedAt = 31\<rparr>], nextID = 4\<rparr> ''1'' =
     (404, ErrorBody ''Todo not found'') \<and>
   (\<exists>k<length (todos two_todos). ID (todos two_todos ! k) = 1 \<and>
      DeleteTodo (two_todos\<lparr>todos := take k (todos two_todos) @ drop (Suc k) (todos two_todos)\<rparr>) ''1'' =
        ((404, ErrorBody ''Todo not found''),
         two_todos\<lparr>todos := take k (todos two_todos) @ drop (Suc k) (todos two_todos)\<rparr>))"
proof -
  have a: "Atoi ''1'' = Some 1" by (simp add: Atoi_def)
  have b: "1 \<in> ID ` set (todos two_todos)" by (simp add: two_todos_def)
  have c: "distinct (map ID (todos two_todos))" by (simp add: two_todos_def)
  have d: "DeleteTodo two_todos ''1'' =
     ((200, MessageBody ''Todo deleted successfully''),
      \<lparr>todos = [\<lparr>ID = 3, Title = ''b'', Description = ''y'', Completed = True,
                  CreatedAt = 30, UpdatedAt = 31\<rparr>], nextID = 4\<rparr>)"
    by (simp add: DeleteTodo_def a two_todos_def)
  have e: "GetTodo \<lparr>todos = [\<lparr>ID = 3, Title = ''b'', Description = ''y'', Completed = True,
                  CreatedAt = 30, UpdatedAt = 31\<rparr>], nextID = 4\<rparr> ''1'' =
     (404, ErrorBody ''Todo not found'')"
    by (simp add: GetTodo_def a)
  from delete_removes_record [OF a b] c
  have "\<exists>k<length (todos two_todos). ID (todos two_todos ! k) = 1 \<and>
      DeleteTodo (two_todos\<lparr>todos := take k (todos two_todos) @ drop (Suc k) (todos two_todos)\<rparr>) ''1'' =
        ((404, ErrorBody ''Todo not found''),
         two_todos\<lparr>todos := take k (todos two_todos) @ drop (Suc k) (todos two_todos)\<rparr>)"
    unfolding Let_def by blast
  with a b c d e show ?thesis by blast
qed

section \<open>Malformed and unknown ids\<close>

text \<open>
  Claim C9. When the path id does not parse as an integer, the get, update and delete
  handlers answer 400 with the error \<open>Invalid todo ID\<close>, whatever the store holds and
  whatever the body is; the store is left as it was, and the answer is never the 404 of
  a missing record.
\<close>

theorem invalid_id_bad_request:
  assumes "Atoi idParam = None"
  shows "GetTodo s idParam = (400, ErrorBody ''Invalid todo ID'') \<and>
         UpdateTodo s idParam b now = ((400, ErrorBody ''Invalid todo ID''), s) \<and>
         DeleteTodo s idParam = ((400, ErrorBody ''Invalid todo ID''), s)"
  using assms by (simp add: GetTodo_def UpdateTodo_def DeleteTodo_def)

theorem invalid_id_bad_request_witness:
  "Atoi ''12a'' = None \<and>
   GetTodo init_store ''12a'' = (400, ErrorBody ''Invalid todo ID'') \<and>
   UpdateTodo init_store ''12a'' (Inl ''eof'') 5 = ((400, ErrorBody ''Invalid todo ID''), init_store) \<and>
   DeleteTodo init_store ''12a'' = ((400, ErrorBody ''Invalid todo ID''), init_store)"
proof -
  have h: "Atoi ''12a'' = None" by (simp add: Atoi_def)
  from invalid_id_bad_request [OF h, of init_store "Inl ''eof''" 5] h show ?thesis by simp
qed

text \<open>
  Claim C6, as amended. The claim wants 404 for every update with an id that no record
  carries. \<^verbatim>\<open>UpdateTodo\<close> decodes the body before it scans for the id, so such an update
  with a body that does not decode is answered with 400, the decoder's error. What holds:
  when the path id parses to an integer that no record of the store carries, delete
  answers 404 with the error \<open>Todo not found\<close>, update answers 404 with the same error
  when its body decodes and 400 with the decoder's error when it does not, and in every
  case the store is returned unchanged: same records, same order, same counter.
\<close>

theorem absent_id_not_found:
  assumes "Atoi idParam = Some i" and "i \<notin> ID ` set (todos s)"
  shows "UpdateTodo s idParam (Inr d) now = ((404, ErrorBody ''Todo not found''), s) \<and>
         DeleteTodo s idParam = ((404, ErrorBody ''Todo not found''), s) \<and>
         UpdateTodo s idParam (Inl e) now = ((400, ErrorBody e), s) \<and>
         snd (UpdateTodo s idParam b now) = s"
proof -
  from assms(2) have "find_index (todos s) i = None"
    by (simp add: find_index_None_iff)
  with assms(1) show ?thesis
    by (simp add: UpdateTodo_def DeleteTodo_def split: sum.split)
qed

theorem absent_id_not_found_witness:
  "Atoi ''2'' = Some 2 \<and> 2 \<notin> ID ` set (todos two_todos) \<and>
   UpdateTodo two_todos ''2'' (Inr sample) 99 = ((404, ErrorBody ''Todo not found''), two_todos) \<and>
   DeleteTodo two_todos ''2'' = ((404, ErrorBody ''Todo not found''), two_todos) \<and>
   UpdateTodo two_todos ''2'' (Inl ''EOF'') 99 = ((400, ErrorBody ''EOF''), two_todos)"
proof -
  have a: "Atoi ''2'' = Some 2" by (simp add: Atoi_def)
  have b: "2 \<notin> ID ` set (todos two_todos)" by (simp add: two_todos_def)
  from absent_id_not_found [OF a b, of sample 99 "''EOF''"] a b show ?thesis by simp
qed

text \<open>
  The claim as stated fails: the id 2 is not in the store, and an update of it with an
  empty body (the decoder's error is \<open>EOF\<close>) is answered with 400, not with 404.
\<close>

theorem absent_id_bad_body_is_400:
  "Atoi ''2'' = Some 2 \<and> 2 \<notin> ID ` set (todos two_todos) \<and>
   UpdateTodo two_todos ''2'' (Inl ''EOF'') 99 = ((400, ErrorBody ''EOF''), two_todos) \<and>
   UpdateTodo two_todos ''2'' (Inl ''EOF'') 99 \<noteq>
     ((404, ErrorBody ''Todo not found''), two_todos)"
  by (simp add: UpdateTodo_def Atoi_def two_todos_def)

section \<open>Pagination\<close>

text \<open>
  Claim C3. The page and the limit the list handler works with are those of the
  specification's rule applied to the outcome of parsing: absent, malformed, zero and
  negative values give page 1 and limit 10, a limit above 100 gives 100. A malformed
  value is never rejected: every answer of the handler has status 200 and reports these
  two values as \<open>current_page\<close> and \<open>per_page\<close>, and with an absent or malformed page
  the handler always answers.
\<close>

theorem query_parameters_defaulted:
  "query_page pageParam = spec_page (Atoi pageParam) \<and>
   query_limit limitParam = spec_limit (Atoi limitParam) \<and>
   (\<forall>r. GetTodos s pageParam limitParam = Inr r \<longrightarrow>
      fst r = 200 \<and>
      (\<exists>pg. snd r = PageBody pg \<and> current_page pg = spec_page (Atoi pageParam) \<and>
            per_page pg = spec_limit (Atoi limitParam))) \<and>
   (Atoi pageParam = None \<longrightarrow> (\<exists>pg. GetTodos s pageParam limitParam = Inr (200, PageBody pg)))"
proof -
  have a: "fst r = 200 \<and>
      (\<exists>pg. snd r = PageBody pg \<and> current_page pg = spec_page (Atoi pageParam) \<and>
            per_page pg = spec_limit (Atoi limitParam))"
    if "GetTodos s pageParam limitParam = Inr r" for r
    using paginate_response [of "todos s" "query_page pageParam" "query_limit limitParam" r] that
    by (auto simp: GetTodos_def query_page_spec query_limit_spec)
  have b: "\<exists>pg. GetTodos s pageParam limitParam = Inr (200, PageBody pg)"
    if "Atoi pageParam = None"
  proof -
    from that have "query_page pageParam = 1"
      by (simp add: query_page_spec spec_page_def)
    with paginate_first_page [of "query_limit limitParam" "todos s"] query_limit_range [of limitParam]
    show ?thesis by (simp add: GetTodos_def)
  qed
  from a b show ?thesis
    by (simp add: query_page_spec query_limit_spec)
qed

theorem query_parameters_defaulted_witness:
  "query_page ''0'' = 1 \<and> query_page ''abc'' = 1 \<and> query_page [] = 1 \<and> query_page ''7'' = 7 \<and>
   query_limit ''500'' = 100 \<and> query_limit ''-3'' = 10 \<and> query_limit ''1x'' = 10 \<and>
   query_limit ''25'' = 25 \<and> query_limit ''99999999999999999999'' = 10 \<and>
   Atoi ''abc'' = None \<and>
   GetTodos two_todos ''abc'' ''500'' =
     Inr (200, PageBody \<lparr>page_todos = todos two_todos, total_count = 2, current_page = 1,
            total_pages = 1, per_page = 100, has_next = False, has_prev = False\<rparr>)"
proof -
  have a: "Atoi ''0'' = Some 0" "Atoi ''abc'' = None" "Atoi [] = None" "Atoi ''7'' = Some 7"
    "Atoi ''500'' = Some 500" "Atoi ''-3'' = Some (- 3)" "Atoi ''1x'' = None" "Atoi ''25'' = Some 25"
    "Atoi ''99999999999999999999'' = None"
    by (simp_all add: Atoi_def)
  have g: "GetTodos two_todos ''abc'' ''500'' =
     Inr (200, PageBody \<lparr>page_todos = todos two_todos, total_count = 2, current_page = 1,
            total_pages = 1, per_page = 100, has_next = False, has_prev = False\<rparr>)"
    by (simp add: GetTodos_def paginate_def query_page_def query_limit_def a two_todos_def
        int64_def Let_def signed_divide_int_def)
  from query_parameters_defaulted [of "''0''" "''500''" two_todos]
       query_parameters_defaulted [of "''abc''" "''-3''" two_todos]
       query_parameters_defaulted [of "[]" "''1x''" two_todos]
       query_parameters_defaulted [of "''7''" "''25''" two_todos]
       query_parameters_defaulted [of "''7''" "''99999999999999999999''" two_todos]
  show ?thesis
    unfolding a spec_page_def spec_limit_def using g by simp
qed

text \<open>
  Claim C4. The \<open>total_pages\<close> of every answer of the list handler is the ceiling of
  \<open>totalCount / limit\<close>, except that an empty store reports 1. The store's length is
  assumed to leave room for the sum \<open>totalCount + limit - 1\<close> in a 64-bit int, as every
  slice that fits in memory does.
\<close>

theorem total_pages_is_ceiling:
  assumes "GetTodos s pageParam limitParam = Inr (code, PageBody pg)"
    and "int (length (todos s)) + 100 < 2 ^ 63"
  shows "total_pages pg =
           (if todos s = [] then 1
            else \<lceil>real (length (todos s)) / real_of_int (per_page pg)\<rceil>) \<and>
         per_page pg = query_limit limitParam \<and>
         total_count pg = int (length (todos s))"
proof -
  let ?n = "int (length (todos s))" and ?l = "query_limit limitParam"
  from assms(1) have p: "paginate (todos s) (query_page pageParam) ?l = Inr (code, PageBody pg)"
    by (simp add: GetTodos_def)
  note tp = paginate_total_pages [OF p]
  have l: "1 \<le> ?l" "?l \<le> 100" using query_limit_range [of limitParam] by simp_all
  have n0: "0 \<le> ?n" by simp
  have v: "int64 (int64 (int64 (?n + ?l) - 1) sdiv ?l) = (?n + ?l - 1) div ?l"
    using n0 l assms(2) by (rule total_pages_value)
  have z: "(?n + ?l - 1) div ?l = 0 \<longleftrightarrow> todos s = []"
    using total_pages_zero_iff [OF n0 l(1)] by simp
  have c: "\<lceil>real (length (todos s)) / real_of_int ?l\<rceil> = (?n + ?l - 1) div ?l"
    using ceiling_div_int [of ?l ?n] l(1) by simp
  from tp have "per_page pg = ?l" by simp
  with tp v z c show ?thesis by simp
qed

theorem total_pages_is_ceiling_witness:
  "GetTodos two_todos ''2'' ''1'' =
     Inr (200, PageBody \<lparr>page_todos = [todos two_todos ! 1], total_count = 2, current_page = 2,
            total_pages = 2, per_page = 1, has_next = False, has_prev = True\<rparr>) \<and>
   int (length (todos two_todos)) + 100 < 2 ^ 63 \<and>
   (2::int) = (if todos two_todos = [] then 1
               else \<lceil>real (length (todos two_todos)) / real_of_int 1\<rceil>)"
proof -
  have a: "Atoi ''2'' = Some 2" "Atoi ''1'' = Some 1"
    by (simp_all add: Atoi_def)
  have g: "GetTodos two_todos ''2'' ''1'' =
     Inr (200, PageBody \<lparr>page_todos = [todos two_todos ! 1], total_count = 2, current_page = 2,
            total_pages = 2, per_page = 1, has_next = False, has_prev = True\<rparr>)"
    by (simp add: GetTodos_def paginate_def query_page_def query_limit_def a two_todos_def
        int64_def Let_def signed_divide_int_def)
  have b: "int (length (todos two_todos)) + 100 < 2 ^ 63"
    by (simp add: two_todos_def)
  from total_pages_is_ceiling [OF g b]
  have "(2::int) = (if todos two_todos = [] then 1
               else \<lceil>real (length (todos two_todos)) / real_of_int 1\<rceil>)"
    by (simp add: two_todos_def)
  with g b show ?thesis
    by blast
qed

text \<open>
  Claim C2. For a page whose offset \<open>(page - 1) * limit\<close> fits in a 64-bit int the
  handler does what the claim says (\<open>paginate_without_overflow\<close>). For a larger page the
  product wraps around. With two records in the store, page 922337203685477582 and the
  default limit 10 give a negative offset: the test \<open>offset >= totalCount\<close> fails and
  the slice expression panics, so the request is answered with 500 where the claim wants
  an empty page. Page 288230376151711745 with limit 64 gives the offset 0: the answer
  holds the first records of the store where the claim wants an empty page.
\<close>

theorem huge_page_overflows:
  "int (length (todos two_todos)) \<le> (query_page ''922337203685477582'' - 1) * query_limit [] \<and>
   GetTodos two_todos ''922337203685477582'' [] = Inl SliceBoundsOutOfRange \<and>
   handle two_todos (GET_todos ''922337203685477582'' []) = ((500, NoBody), two_todos) \<and>
   int (length (todos two_todos)) \<le> (query_page ''288230376151711745'' - 1) * query_limit ''64'' \<and>
   GetTodos two_todos ''288230376151711745'' ''64'' =
     Inr (200, PageBody \<lparr>page_todos = todos two_todos, total_count = 2,
            current_page = 288230376151711745, total_pages = 1, per_page = 64,
            has_next = False, has_prev = True\<rparr>)"
proof -
  have a: "Atoi ''922337203685477582'' = Some 922337203685477582"
    "Atoi ''288230376151711745'' = Some 288230376151711745" "Atoi ''64'' = Some 64"
    by (simp_all add: Atoi_def)
  have p: "query_page ''922337203685477582'' = 922337203685477582"
    "query_page ''288230376151711745'' = 288230376151711745"
    "query_limit [] = 10" "query_limit ''64'' = 64"
    by (simp_all add: query_page_def query_limit_def a)
  have g1: "GetTodos two_todos ''922337203685477582'' [] = Inl SliceBoundsOutOfRange"
    by (simp add: GetTodos_def paginate_def p two_todos_def int64_def Let_def
        signed_divide_int_def)
  have g2: "GetTodos two_todos ''288230376151711745'' ''64'' =
     Inr (200, PageBody \<lparr>page_todos = todos two_todos, total_count = 2,
            current_page = 288230376151711745, total_pages = 1, per_page = 64,
            has_next = False, has_prev = True\<rparr>)"
    by (simp add: GetTodos_def paginate_def p two_todos_def int64_def Let_def
        signed_divide_int_def)
  have l: "int (length (todos two_todos)) = 2" by (simp add: two_todos_def)
  from g1 g2 show ?thesis
    unfolding p l by simp
qed

end
